theory Spec2Isabelle
  imports Complex_Main "HOL-Library.Product_Lexorder"
begin


section \<open>Python string primitives used by the chunker\<close>

text \<open>
  Texts are Python \<open>str\<close> values. They are modelled as \<open>string\<close>, one \<open>char\<close> per code
  point, so the model covers the code points 0..255. Indices are Python integers
  (\<open>int\<close>), because the cursor of the chunker can become negative and Python then
  counts from the end of the text.
\<close>

definition py_isspace :: "char \<Rightarrow> bool" where
  \<comment> \<open>\<open>str.isspace\<close> on one code point below 256: TAB..CR, FS..US, space, NEL, NBSP.\<close>
  "py_isspace c = ((of_char c :: nat) \<in> {9, 10, 11, 12, 13, 28, 29, 30, 31, 32, 133, 160})"

definition strip :: "string \<Rightarrow> string" where
  \<comment> \<open>\<open>s.strip()\<close>: leading and trailing whitespace removed.\<close>
  "strip s = rev (dropWhile py_isspace (rev (dropWhile py_isspace s)))"

definition slice_index :: "int \<Rightarrow> int \<Rightarrow> nat" where
  \<comment> \<open>One bound of \<open>s[i:j]\<close>: a negative bound counts from the end, then it is clamped
      to \<open>0..len\<close>.\<close>
  "slice_index len i =
     (if i < 0 then (if i + len < 0 then 0 else nat (i + len))
      else if i \<ge> len then nat len else nat i)"

definition py_slice :: "string \<Rightarrow> int \<Rightarrow> int \<Rightarrow> string" where
  \<comment> \<open>\<open>text[start:stop]\<close>.\<close>
  "py_slice s start stop =
     (let a = slice_index (int (length s)) start;
          b = slice_index (int (length s)) stop
      in take (b - a) (drop a s))"

definition find_start :: "int \<Rightarrow> int \<Rightarrow> int" where
  \<comment> \<open>The start bound of \<open>rfind\<close>: a negative bound counts from the end and is clamped to
      0; a bound beyond the end is left as it is.\<close>
  "find_start len i = (if i < 0 then (if i + len < 0 then 0 else i + len) else i)"

definition find_end :: "int \<Rightarrow> int \<Rightarrow> int" where
  \<comment> \<open>The end bound of \<open>rfind\<close>: clamped to the length, a negative bound counts from the
      end and is clamped to 0.\<close>
  "find_end len j =
     (if j > len then len else if j < 0 then (if j + len < 0 then 0 else j + len) else j)"

fun rfind_from :: "string \<Rightarrow> string \<Rightarrow> nat \<Rightarrow> nat \<Rightarrow> int" where
  \<comment> \<open>The highest position among \<open>lo, ..., lo + n - 1\<close> at which \<open>sub\<close> occurs, else \<open>-1\<close>.\<close>
  "rfind_from s sub lo 0 = -1"
| "rfind_from s sub lo (Suc n) =
     (if take (length sub) (drop (lo + n) s) = sub then int (lo + n)
      else rfind_from s sub lo n)"

definition rfind :: "string \<Rightarrow> string \<Rightarrow> int \<Rightarrow> int \<Rightarrow> int" where
  \<comment> \<open>\<open>text.rfind(sub, start, end)\<close>: the highest index of an occurrence of \<open>sub\<close> lying
      wholly inside \<open>text[start:end]\<close>, else \<open>-1\<close>.\<close>
  "rfind s sub start stop =
     (let a = find_start (int (length s)) start;
          b = find_end (int (length s)) stop
      in if b - a < int (length sub) then -1
         else rfind_from s sub (nat a) (Suc (nat (b - a - int (length sub)))))"

section \<open>The chunker: \<open>DocumentParser.chunk_text\<close>\<close>

definition max_iterations :: nat where
  "max_iterations = 10000"

definition delimiters :: "string list" where
  \<comment> \<open>\<open>['. ', '.\n', '! ', '!\n', '? ', '?\n']\<close>\<close>
  "delimiters =
     [''. '', [CHR ''.'', CHR 0x0A], ''! '', [CHR ''!'', CHR 0x0A],
      ''? '', [CHR ''?'', CHR 0x0A]]"

fun sentence_end :: "string \<Rightarrow> int \<Rightarrow> int \<Rightarrow> string list \<Rightarrow> int option" where
  \<comment> \<open>The \<open>for delimiter in ...\<close> loop: the first delimiter found in the window decides
      (\<open>break\<close>); \<open>None\<close> is the loop's \<open>else\<close> branch.\<close>
  "sentence_end text start stop [] = None"
| "sentence_end text start stop (delimiter # ds) =
     (let boundary = rfind text delimiter start stop
      in if boundary \<noteq> -1 then Some (boundary + int (length delimiter))
         else sentence_end text start stop ds)"

definition chunk_end :: "string \<Rightarrow> int \<Rightarrow> int \<Rightarrow> int" where
  \<comment> \<open>The value of \<open>end\<close> when the slice is taken.\<close>
  "chunk_end text chunk_size start =
     (let stop = start + chunk_size
      in if stop < int (length text) then
           (case sentence_end text start stop delimiters of
              Some e \<Rightarrow> e
            | None \<Rightarrow>
                (let boundary = rfind text '' '' start stop
                 in if boundary \<noteq> -1 then boundary + 1 else stop))
         else stop)"

definition next_start :: "string \<Rightarrow> int \<Rightarrow> int \<Rightarrow> int \<Rightarrow> int \<Rightarrow> int" where
  \<comment> \<open>The cursor after one iteration, \<open>stop\<close> being the iteration's \<open>end\<close>.\<close>
  "next_start text chunk_size overlap start stop =
     (if stop \<le> start then start + max 1 chunk_size
      else if stop < int (length text) then stop - overlap else int (length text))"

function chunk_loop ::
  "string \<Rightarrow> int \<Rightarrow> int \<Rightarrow> int \<Rightarrow> string list \<Rightarrow> nat \<Rightarrow> string list \<times> nat" where
  "chunk_loop text chunk_size overlap start chunks iteration_count =
     (if start < int (length text) \<and> iteration_count < max_iterations then
        (let stop = chunk_end text chunk_size start;
             chunk = strip (py_slice text start stop)
         in chunk_loop text chunk_size overlap
              (next_start text chunk_size overlap start stop)
              (if chunk \<noteq> [] then chunks @ [chunk] else chunks)
              (iteration_count + 1))
      else (chunks, iteration_count))"
  by pat_completeness auto
termination
  by (relation "measure (\<lambda>(text, chunk_size, overlap, start, chunks, iteration_count).
        max_iterations - iteration_count)") auto

declare chunk_loop.simps [simp del]

definition chunk_text_run :: "string \<Rightarrow> int \<Rightarrow> int \<Rightarrow> string list \<times> nat" where
  \<comment> \<open>\<open>chunk_text\<close> with the final \<open>iteration_count\<close> beside the chunks.\<close>
  "chunk_text_run text chunk_size overlap =
     (if text = [] then ([], 0) else chunk_loop text chunk_size overlap 0 [] 0)"

definition chunk_text :: "string \<Rightarrow> int \<Rightarrow> int \<Rightarrow> string list" where
  "chunk_text text chunk_size overlap = fst (chunk_text_run text chunk_size overlap)"

abbreviation chunk_at :: "string \<Rightarrow> int \<Rightarrow> int \<Rightarrow> string" where
  \<comment> \<open>The chunk of the iteration whose cursor is \<open>start\<close>, before the test \<open>if chunk\<close>.\<close>
  "chunk_at t cs start \<equiv> strip (py_slice t start (chunk_end t cs start))"

abbreviation emit :: "string list \<Rightarrow> string \<Rightarrow> string list" where
  \<comment> \<open>\<open>if chunk: chunks.append(chunk)\<close>\<close>
  "emit chunks chunk \<equiv> (if chunk \<noteq> [] then chunks @ [chunk] else chunks)"

section \<open>The windows of the chunker\<close>

function span_loop ::
  "string \<Rightarrow> int \<Rightarrow> int \<Rightarrow> int \<Rightarrow> (int \<times> int) list \<Rightarrow> nat \<Rightarrow> (int \<times> int) list" where
  \<comment> \<open>The loop of \<open>chunk_text\<close> once more, recording for every iteration the bounds
      \<open>(start, end)\<close> of its slice \<open>text[start:end]\<close> in place of the chunk.\<close>
  "span_loop text chunk_size overlap start spans iteration_count =
     (if start < int (length text) \<and> iteration_count < max_iterations then
        (let stop = chunk_end text chunk_size start
         in span_loop text chunk_size overlap
              (next_start text chunk_size overlap start stop)
              (spans @ [(start, stop)])
              (iteration_count + 1))
      else spans)"
  by pat_completeness auto
termination
  by (relation "measure (\<lambda>(text, chunk_size, overlap, start, spans, iteration_count).
        max_iterations - iteration_count)") auto

declare span_loop.simps [simp del]

definition chunk_spans :: "string \<Rightarrow> int \<Rightarrow> int \<Rightarrow> (int \<times> int) list" where
  "chunk_spans text chunk_size overlap =
     (if text = [] then [] else span_loop text chunk_size overlap 0 [] 0)"

definition window :: "string \<Rightarrow> int \<times> int \<Rightarrow> string" where
  "window text bounds = py_slice text (fst bounds) (snd bounds)"

definition chunk_windows :: "string \<Rightarrow> int \<Rightarrow> int \<Rightarrow> string list" where
  \<comment> \<open>The slices \<open>text[start:end]\<close> of the iterations, before \<open>strip\<close>.\<close>
  "chunk_windows text chunk_size overlap = map (window text) (chunk_spans text chunk_size overlap)"

definition stripped :: "string list \<Rightarrow> string list" where
  \<comment> \<open>The windows stripped, the empty results left out.\<close>
  "stripped windows = filter (\<lambda>c. c \<noteq> []) (map strip windows)"

definition extends_overlap :: "int \<Rightarrow> int \<times> int \<Rightarrow> bool" where
  \<comment> \<open>The slice reaches beyond the \<open>overlap\<close> characters it shares with its predecessor.\<close>
  "extends_overlap overlap bounds = (fst bounds + overlap < snd bounds)"

section \<open>The vector index\<close>

text \<open>
  The index is a FAISS \<open>IndexFlatL2\<close>. FAISS is a library and not part of the
  repository: construction, \<open>add\<close>, \<open>search\<close> and \<open>ntotal\<close> are taken from the contract of
  the \<open>Vector Index\<close> component of the specification.
\<close>

datatype error =
    EmbeddingError            \<comment> \<open>\<open>embedding_model.encode\<close> raised\<close>
  | DimensionMismatchError    \<comment> \<open>\<open>index.add\<close> refused the vectors\<close>
  | IndexReadError            \<comment> \<open>\<open>faiss.read_index\<close> found no \<open>index.faiss\<close>\<close>
  | FileNotFoundError         \<comment> \<open>\<open>open\<close> found no \<open>documents.json\<close>\<close>
  | BackendError string       \<comment> \<open>the generation backend raised\<close>

type_synonym vector = "real list"

record faiss_index =
  index_dim :: nat
  vectors :: "vector list"

definition IndexFlatL2 :: "nat \<Rightarrow> faiss_index" where
  \<comment> \<open>Modelled from the spec: \<open>faiss.IndexFlatL2(d)\<close>, missing from the sources; an empty
      index of the given dimension.\<close>
  "IndexFlatL2 n = \<lparr>index_dim = n, vectors = []\<rparr>"

definition ntotal :: "faiss_index \<Rightarrow> nat" where
  \<comment> \<open>Modelled from the spec: \<open>index.ntotal\<close>, missing from the sources; the number of
      vectors held.\<close>
  "ntotal ix = length (vectors ix)"

definition index_add :: "faiss_index \<Rightarrow> vector list \<Rightarrow> error + faiss_index" where
  \<comment> \<open>Modelled from the spec: \<open>index.add\<close>, missing from the sources (\<open>insert\<close> in the
      specification). It appends the vectors in the given order; a vector of another
      dimension fails the whole call.\<close>
  "index_add ix vs =
     (if list_all (\<lambda>v. length v = index_dim ix) vs then Inr (ix\<lparr>vectors := vectors ix @ vs\<rparr>)
      else Inl DimensionMismatchError)"

definition l2_sq :: "vector \<Rightarrow> vector \<Rightarrow> real" where
  \<comment> \<open>Modelled from the spec: the squared Euclidean distance by which the index ranks.\<close>
  "l2_sq x y = sum_list (map (\<lambda>(a, b). (a - b) * (a - b)) (zip x y))"

definition index_search :: "faiss_index \<Rightarrow> vector \<Rightarrow> int \<Rightarrow> (nat \<times> real) list" where
  \<comment> \<open>Modelled from the spec: \<open>index.search\<close>, missing from the sources. Positions with
      their distances, by ascending distance, ties by smaller position, \<open>min(k, size)\<close>
      of them; \<open>k <= 0\<close> or an empty index yields the empty sequence.\<close>
  "index_search ix q k =
     (if k \<le> 0 \<or> vectors ix = [] then []
      else take (nat k)
             (sort_key (\<lambda>(position, distance). (distance, position))
                (map (\<lambda>position. (position, l2_sq q (vectors ix ! position)))
                   [0 ..< length (vectors ix)])))"

section \<open>The knowledge base: \<open>RAGSystem\<close>\<close>

record document =
  doc_text :: string
  doc_source :: string
  chunk_id :: int

record scored_document = document +
  score :: real

text \<open>
  The embedding model and the generation backends are external. The embedding model maps
  one text to its vector, \<open>None\<close> when the call raises. A generation backend maps a
  prompt to the generated text or to the error it raises.
\<close>

type_synonym backend = "string \<Rightarrow> error + string"

record rag_system =
  chunk_size :: int
  chunk_overlap :: int
  embedding_model :: "string \<Rightarrow> vector option"
  embedding_dim :: nat
  index :: faiss_index
  documents :: "document list"
  llm_provider :: string
  hf_client :: "backend option"

definition rag_init ::
  "(string \<Rightarrow> vector option) \<Rightarrow> nat \<Rightarrow> int \<Rightarrow> int \<Rightarrow> string \<Rightarrow> backend option \<Rightarrow> rag_system" where
  \<comment> \<open>\<open>RAGSystem.__init__\<close>: an empty index of the model's dimension and no documents.\<close>
  "rag_init model model_dim csize coverlap provider client =
     \<lparr>chunk_size = csize, chunk_overlap = coverlap, embedding_model = model,
      embedding_dim = model_dim, index = IndexFlatL2 model_dim, documents = [],
      llm_provider = provider, hf_client = client\<rparr>"

definition encode :: "(string \<Rightarrow> vector option) \<Rightarrow> string list \<Rightarrow> vector list option" where
  \<comment> \<open>\<open>embedding_model.encode(texts)\<close>: one vector per text, in order; it raises when
      the model raises on one of them.\<close>
  "encode model texts = those (map model texts)"

definition add_document :: "rag_system \<Rightarrow> string \<Rightarrow> string \<Rightarrow> error + rag_system" where
  \<comment> \<open>\<open>Inl e\<close>: the call raises \<open>e\<close>, and the system is as it was before the call.\<close>
  "add_document s text source =
     (let chunks = chunk_text text (chunk_size s) (chunk_overlap s)
      in if chunks = [] then Inr s
         else
           (case encode (embedding_model s) chunks of
              None \<Rightarrow> Inl EmbeddingError
            | Some embeddings \<Rightarrow>
                (case index_add (index s) embeddings of
                   Inl e \<Rightarrow> Inl e
                 | Inr ix \<Rightarrow>
                     Inr (s\<lparr>index := ix,
                            documents := documents s @
                              map (\<lambda>(i, chunk).
                                     \<lparr>doc_text = chunk, doc_source = source, chunk_id = int i\<rparr>)
                                (enumerate 0 chunks)\<rparr>))))"

definition retrieve :: "rag_system \<Rightarrow> string \<Rightarrow> int \<Rightarrow> error + scored_document list" where
  "retrieve s query top_k =
     (if length (documents s) = 0 then Inr []
      else
        (case embedding_model s query of
           None \<Rightarrow> Inl EmbeddingError
         | Some query_embedding \<Rightarrow>
             (let found = index_search (index s) query_embedding
                            (min top_k (int (length (documents s))))
              in Inr (map (\<lambda>(idx, distance).
                             document.extend (documents s ! idx) \<lparr>score = distance\<rparr>)
                        (filter (\<lambda>(idx, distance). idx < length (documents s)) found)))))"

definition get_document_count :: "rag_system \<Rightarrow> nat" where
  "get_document_count s = length (documents s)"

definition list_documents :: "rag_system \<Rightarrow> string set" where
  \<comment> \<open>The distinct sources; the order of the returned list is that of a Python set.\<close>
  "list_documents s = set (map doc_source (documents s))"

definition clear :: "rag_system \<Rightarrow> rag_system" where
  "clear s = s\<lparr>index := IndexFlatL2 (embedding_dim s), documents := []\<rparr>"

subsection \<open>Snapshots\<close>

text \<open>
  A snapshot directory holds the two files \<open>index.faiss\<close> and \<open>documents.json\<close>; the
  file system maps the path of a directory to its files. Serialisation is by the FAISS
  and JSON libraries and is taken to write and read back the same value; storage faults
  (a missing parent directory, a full disk) are outside the model.
\<close>

record snapshot_dir =
  index_file :: "faiss_index option"
  documents_file :: "document list option"

type_synonym filesystem = "string \<rightharpoonup> snapshot_dir"

definition save_index :: "rag_system \<Rightarrow> filesystem \<Rightarrow> string \<Rightarrow> filesystem" where
  "save_index s fs path =
     fs(path \<mapsto> \<lparr>index_file = Some (index s), documents_file = Some (documents s)\<rparr>)"

definition load_index ::
  "rag_system \<Rightarrow> filesystem \<Rightarrow> string \<Rightarrow> (error \<times> rag_system) + rag_system" where
  \<comment> \<open>\<open>Inl (e, s')\<close>: the call raises \<open>e\<close> and leaves the system as \<open>s'\<close>.\<close>
  "load_index s fs path =
     (case fs path of
        None \<Rightarrow> Inr s
      | Some dir \<Rightarrow>
          (case index_file dir of
             None \<Rightarrow> Inl (IndexReadError, s)
           | Some ix \<Rightarrow>
               (case documents_file dir of
                  None \<Rightarrow> Inl (FileNotFoundError, s\<lparr>index := ix\<rparr>)
                | Some docs \<Rightarrow> Inr (s\<lparr>index := ix, documents := docs\<rparr>))))"

subsection \<open>Answer synthesis\<close>

definition newline :: string where
  "newline = [CHR 0x0A]"

definition apostrophe :: string where
  "apostrophe = [CHR 0x27]"

definition quote_mark :: string where
  "quote_mark = [CHR 0x22]"

function str_nat :: "nat \<Rightarrow> string" where
  \<comment> \<open>\<open>str(n)\<close> for \<open>n >= 0\<close>: the decimal digits.\<close>
  "str_nat n =
     (if n < 10 then [''0123456789'' ! n]
      else str_nat (n div 10) @ [''0123456789'' ! (n mod 10)])"
  by pat_completeness auto
termination
  by (relation "measure (\<lambda>n. n)") auto

declare str_nat.simps [simp del]

definition str_int :: "int \<Rightarrow> string" where
  \<comment> \<open>\<open>str(i)\<close>\<close>
  "str_int i = (if i < 0 then ''-'' @ str_nat (nat (- i)) else str_nat (nat i))"

definition no_information :: string where
  "no_information =
     ''I couldn'' @ apostrophe @
     ''t find any relevant information in the knowledge base to answer your question.''"

definition context_block :: "'a document_scheme \<Rightarrow> string" where
  \<comment> \<open>\<open>f"[Source: {doc['source']}, Chunk {doc['chunk_id']}]\n{doc['text']}"\<close>\<close>
  "context_block doc =
     ''[Source: '' @ doc_source doc @ '', Chunk '' @ str_int (chunk_id doc) @ '']'' @
     newline @ doc_text doc"

fun join :: "string \<Rightarrow> string list \<Rightarrow> string" where
  \<comment> \<open>\<open>sep.join(parts)\<close>\<close>
  "join sep [] = []"
| "join sep [x] = x"
| "join sep (x # y # ys) = x @ sep @ join sep (y # ys)"

definition build_prompt :: "string \<Rightarrow> 'a document_scheme list \<Rightarrow> string" where
  "build_prompt query context_docs =
     ''Using the following documents from the knowledge base, answer the user'' @
     apostrophe @ ''s question succinctly and accurately.'' @ newline @ newline @
     ''Context from documents:'' @ newline @
     join (newline @ newline) (map context_block context_docs) @ newline @ newline @
     ''User'' @ apostrophe @ ''s question: '' @ query @ newline @ newline @
     ''Instructions:'' @ newline @
     ''- Provide a clear, concise answer based on the context'' @ newline @
     ''- If the context doesn'' @ apostrophe @
     ''t contain enough information, say so'' @ newline @
     ''- Cite sources when possible (e.g., '' @ quote_mark @
     ''According to [source]...'' @ quote_mark @ '')'' @ newline @
     ''- Be factual and don'' @ apostrophe @ ''t make up information'' @ newline @ newline @
     ''Answer:''"

definition preview :: "nat \<Rightarrow> string \<Rightarrow> string" where
  \<comment> \<open>\<open>t[:n] + "..." if len(t) > n else t\<close>\<close>
  "preview n t = (if length t > n then take n t @ ''...'' else t)"

definition fallback_answer :: "string \<Rightarrow> 'a document_scheme list \<Rightarrow> string" where
  \<comment> \<open>\<open>RAGSystem._fallback_answer\<close>\<close>
  "fallback_answer query context_docs =
     foldl (\<lambda>answer (i, doc).
              answer @ str_nat i @ ''. From '' @ doc_source doc @ '':'' @ newline @
              preview 300 (doc_text doc) @ newline @ newline)
       (''Based on the available documents:'' @ newline @ newline)
       (enumerate 1 context_docs)"

definition llm_answer ::
  "rag_system \<Rightarrow> backend \<Rightarrow> string \<Rightarrow> 'a document_scheme list \<Rightarrow> error + string" where
  \<comment> \<open>The body of the \<open>try\<close> in \<open>synthesize_answer\<close>; \<open>openai_create\<close> is the module's
      chat completion call with the content of the first choice as its result.\<close>
  "llm_answer s openai_create query context_docs =
     (if llm_provider s = ''openai'' then
        (case openai_create (build_prompt query context_docs) of
           Inl e \<Rightarrow> Inl e
         | Inr content \<Rightarrow> Inr (strip content))
      else if llm_provider s = ''huggingface'' then
        (case hf_client s of
           None \<Rightarrow> Inr (fallback_answer query context_docs)
         | Some text_generation \<Rightarrow>
             (case text_generation (build_prompt query context_docs) of
                Inl e \<Rightarrow> Inl e
              | Inr response \<Rightarrow> Inr (strip response)))
      else Inr (fallback_answer query context_docs))"

definition synthesize_answer ::
  "rag_system \<Rightarrow> backend \<Rightarrow> string \<Rightarrow> 'a document_scheme list \<Rightarrow> error + string" where
  \<comment> \<open>\<open>Inl e\<close> would be an exception leaving \<open>synthesize_answer\<close>; the \<open>except\<close> clause
      turns every error of the \<open>try\<close> body into the fallback answer.\<close>
  "synthesize_answer s openai_create query context_docs =
     (if context_docs = [] then Inr no_information
      else
        (case llm_answer s openai_create query context_docs of
           Inl e \<Rightarrow> Inr (fallback_answer query context_docs)
         | Inr answer \<Rightarrow> Inr answer))"

section \<open>Runs of the knowledge base and example collaborators\<close>

datatype operation = AddDocument string string | Clear

fun apply_operation :: "rag_system \<Rightarrow> operation \<Rightarrow> rag_system" where
  \<comment> \<open>One completed mutation. A call of \<open>add_document\<close> that raises leaves the system
      as it was.\<close>
  "apply_operation s (AddDocument content source) =
     (case add_document s content source of Inl e \<Rightarrow> s | Inr s' \<Rightarrow> s')"
| "apply_operation s Clear = clear s"

definition run :: "rag_system \<Rightarrow> operation list \<Rightarrow> rag_system" where
  "run s ops = foldl apply_operation s ops"

definition length_model :: "string \<Rightarrow> vector option" where
  \<comment> \<open>An embedding model of dimension 2, for the examples.\<close>
  "length_model t = Some [real (length t), 1]"

definition failing_backend :: backend where
  \<comment> \<open>A generation backend whose every call raises, for the examples.\<close>
  "failing_backend prompt = Inl (BackendError ''timeout'')"

definition no_snapshots :: filesystem where
  \<comment> \<open>A file system without any snapshot directory.\<close>
  "no_snapshots = Map.empty"

definition example_system :: rag_system where
  \<comment> \<open>A system of embedding dimension 2 with the default chunking configuration.\<close>
  "example_system = rag_init length_model 2 500 50 ''openai'' None"

definition reconstruct :: "int \<Rightarrow> string list \<Rightarrow> string" where
  \<comment> \<open>The reconstruction of the chunk coverage property, in the words of the
      specification: the chunks concatenated, each one after the first without the
      \<open>overlap\<close> characters it shares with its predecessor.\<close>
  "reconstruct overlap chunks =
     (case chunks of [] \<Rightarrow> [] | c # cs \<Rightarrow> c @ concat (map (drop (nat overlap)) cs))"

definition example_document :: document where
  "example_document = \<lparr>doc_text = ''hello world'', doc_source = ''a.txt'', chunk_id = 0\<rparr>"

definition loaded_system :: rag_system where
  \<comment> \<open>The example system holding one chunk and its vector.\<close>
  "loaded_system =
     example_system\<lparr>index := \<lparr>index_dim = 2, vectors = [[11, 1]]\<rparr>,
                    documents := [example_document]\<rparr>"

definition foreign_snapshot :: snapshot_dir where
  \<comment> \<open>A snapshot written by a system of embedding dimension 3.\<close>
  "foreign_snapshot =
     \<lparr>index_file = Some \<lparr>index_dim = 3, vectors = [[1, 2, 3]]\<rparr>,
      documents_file = Some [example_document]\<rparr>"

definition longest_delimiter_length :: nat where
  \<comment> \<open>The length of the longest sentence delimiter.\<close>
  "longest_delimiter_length = foldr max (map length delimiters) 0"

definition trimmed_piece :: "string \<Rightarrow> string \<Rightarrow> bool" where
  \<comment> \<open>\<open>c\<close> is a contiguous, non-empty piece of \<open>t\<close> that neither begins nor ends with
      whitespace.\<close>
  "trimmed_piece t c =
     (c \<noteq> [] \<and> \<not> py_isspace (hd c) \<and> \<not> py_isspace (last c) \<and>
      (\<exists>before after. t = before @ c @ after))"

definition cut_into :: "string \<Rightarrow> nat \<Rightarrow> string list \<Rightarrow> string list \<Rightarrow> bool" where
  \<comment> \<open>The windows are consecutive pieces that make up the first \<open>k\<close> characters of
      \<open>t\<close>, and the chunks are the windows stripped, the empty ones left out.\<close>
  "cut_into t k windows chunks =
     (concat windows = take k t \<and> chunks = filter (\<lambda>c. c \<noteq> []) (map strip windows))"

definition covered :: "string \<Rightarrow> int \<Rightarrow> int \<Rightarrow> (int \<times> int) list \<Rightarrow> bool" where
  \<comment> \<open>The loop invariant of the coverage: the windows so far reconstruct the text up
      to the end of the last window, which lies \<open>overlap\<close> characters after the cursor.\<close>
  "covered t ov start spans =
     (0 \<le> start \<and> start \<le> int (length t) \<and>
      (if spans = [] then start = 0
       else reconstruct ov (map (window t) spans) = take (nat (start + ov)) t))"

definition sentence_then_run :: "nat \<Rightarrow> nat \<Rightarrow> string" where
  \<comment> \<open>An example text: a sentence of \<open>a\<close> letters, its full stop and a space, then
      \<open>b\<close> letters without any delimiter or space.\<close>
  "sentence_then_run a b = replicate a CHR ''x'' @ ''. '' @ replicate b CHR ''y''"

section \<open>The loop of the chunker\<close>

lemma chunk_loop_step:
  "start < int (length t) \<Longrightarrow> n < max_iterations \<Longrightarrow>
   chunk_loop t cs ov start chunks n =
     chunk_loop t cs ov (next_start t cs ov start (chunk_end t cs start))
       (emit chunks (chunk_at t cs start)) (Suc n)"
  by (subst chunk_loop.simps) (simp add: Let_def)

lemma chunk_loop_stop:
  "\<not> (start < int (length t) \<and> n < max_iterations) \<Longrightarrow>
   chunk_loop t cs ov start chunks n = (chunks, n)"
  by (subst chunk_loop.simps) auto

lemma chunk_loop_induct [case_names step]:
  assumes step: "\<And>start chunks n.
     (start < int (length t) \<Longrightarrow> n < max_iterations \<Longrightarrow>
        P (next_start t cs ov start (chunk_end t cs start))
          (emit chunks (chunk_at t cs start)) (Suc n)) \<Longrightarrow>
     P start chunks n"
  shows "P start chunks n"
proof (induction k \<equiv> "max_iterations - n" arbitrary: start chunks n)
  case 0
    show ?case
  proof (rule step)
    assume "n < max_iterations"
    with 0 show "P (next_start t cs ov start (chunk_end t cs start))
          (emit chunks (chunk_at t cs start)) (Suc n)"
      by simp
  qed
next
  case (Suc k)
  show ?case
  proof (rule step)
    assume "n < max_iterations"
    with Suc(2) have "k = max_iterations - Suc n" by simp
    then show "P (next_start t cs ov start (chunk_end t cs start))
          (emit chunks (chunk_at t cs start)) (Suc n)"
      by (rule Suc(1))
  qed
qed

lemma chunk_loop_count:
  "n \<le> max_iterations \<Longrightarrow>
   n \<le> snd (chunk_loop t cs ov start chunks n) \<and>
   snd (chunk_loop t cs ov start chunks n) \<le> max_iterations"
proof (induction start chunks n rule: chunk_loop_induct[where t = t and cs = cs and ov = ov])
  case (step start chunks n)
  show ?case
  proof (cases "start < int (length t) \<and> n < max_iterations")
    case True
    with step show ?thesis by (simp add: chunk_loop_step)
  next
    case False
    with step show ?thesis by (simp add: chunk_loop_stop)
  qed
qed

lemma chunk_loop_length:
  "length (fst (chunk_loop t cs ov start chunks n)) + n \<le>
   length chunks + snd (chunk_loop t cs ov start chunks n)"
proof (induction start chunks n rule: chunk_loop_induct[where t = t and cs = cs and ov = ov])
  case (step start chunks n)
  show ?case
  proof (cases "start < int (length t) \<and> n < max_iterations")
    case True
    with step show ?thesis by (simp add: chunk_loop_step split: if_splits)
  next
    case False
    with step show ?thesis by (simp add: chunk_loop_stop)
  qed
qed

lemma chunk_loop_invariant:
  assumes "I start" and "list_all P chunks"
    and next_I: "\<And>st. I st \<Longrightarrow> st < int (length t) \<Longrightarrow>
           I (next_start t cs ov st (chunk_end t cs st))"
    and chunk_P: "\<And>st. I st \<Longrightarrow> st < int (length t) \<Longrightarrow> chunk_at t cs st \<noteq> [] \<Longrightarrow>
           P (chunk_at t cs st)"
  shows "list_all P (fst (chunk_loop t cs ov start chunks n))"
  using assms(1,2)
proof (induction start chunks n rule: chunk_loop_induct[where t = t and cs = cs and ov = ov])
  case (step start chunks n)
  show ?case
  proof (cases "start < int (length t) \<and> n < max_iterations")
    case True
    have "list_all P (emit chunks (chunk_at t cs start))"
      using True step(2,3) chunk_P[of start] by simp
    moreover have "I (next_start t cs ov start (chunk_end t cs start))"
      using True step(2) next_I by simp
    ultimately show ?thesis
      using True step(1) by (simp add: chunk_loop_step)
  next
    case False
    with step show ?thesis by (simp add: chunk_loop_stop)
  qed
qed

lemma chunk_run_count: "snd (chunk_text_run t cs ov) \<le> max_iterations"
  using chunk_loop_count[of 0 t cs ov 0 "[]"] by (simp add: chunk_text_run_def)

lemma chunk_run_length: "length (fst (chunk_text_run t cs ov)) \<le> snd (chunk_text_run t cs ov)"
  using chunk_loop_length[of t cs ov 0 "[]" 0] by (simp add: chunk_text_run_def)

section \<open>Whitespace\<close>

lemma strip_whitespace: "list_all py_isspace s \<Longrightarrow> strip s = []"
  by (auto simp: strip_def list_all_iff dest: set_dropWhileD)

lemma py_slice_subset: "set (py_slice s a b) \<subseteq> set s"
  unfolding py_slice_def Let_def
  by (meson set_take_subset set_drop_subset subset_trans)

lemma chunk_at_whitespace:
  assumes "list_all py_isspace t"
  shows "chunk_at t cs start = []"
proof (rule strip_whitespace)
  show "list_all py_isspace (py_slice t start (chunk_end t cs start))"
    using assms py_slice_subset[of t start "chunk_end t cs start"]
    by (auto simp: list_all_iff)
qed

lemma chunk_loop_whitespace:
  assumes "list_all py_isspace t"
  shows "fst (chunk_loop t cs ov start [] n) = []"
proof -
  have "list_all (\<lambda>c. False) (fst (chunk_loop t cs ov start [] n))"
    by (rule chunk_loop_invariant[where I = "\<lambda>st. True"])
      (simp_all add: chunk_at_whitespace[OF assms])
  then show ?thesis
    by (cases "fst (chunk_loop t cs ov start [] n)") simp_all
qed

lemma chunk_text_whitespace: "list_all py_isspace t \<Longrightarrow> chunk_text t cs ov = []"
  by (simp add: chunk_text_def chunk_text_run_def chunk_loop_whitespace)

section \<open>Configurations outside the precondition\<close>

text \<open>
  Claim C2 says that a call of \<open>chunk_text\<close> whose configuration violates
  \<open>chunk_size > overlap >= 0\<close> fails with a configuration error instead of returning a
  chunk list. \<open>chunk_text\<close> checks nothing and raises nowhere: with \<open>chunk_size = 0\<close>,
  with \<open>chunk_size = -1\<close> and with \<open>overlap = -1\<close> it returns a chunk list.
\<close>

theorem chunk_text_unchecked_counterexample:
  "chunk_text ''abc'' 0 0 = [] \<and> chunk_text ''abc'' (- 1) 0 = [''ab''] \<and>
   chunk_text ''abc'' 2 (- 1) = [''ab'']"
  by code_simp

text \<open>
  Claim C2 as amended: for every text and every configuration, inside the precondition
  or not, \<open>chunk_text\<close> returns a chunk list; the iteration limit bounds it to 10000
  chunks.
\<close>

theorem chunk_text_returns_list:
  "length (chunk_text t cs ov) \<le> max_iterations"
  using chunk_run_length[of t cs ov] chunk_run_count[of t cs ov]
  by (simp add: chunk_text_def)

section \<open>The length of a chunk\<close>


lemma rfind_from_bounds:
  "rfind_from s sub lo n \<noteq> - 1 \<Longrightarrow>
   int lo \<le> rfind_from s sub lo n \<and> rfind_from s sub lo n < int (lo + n)"
  by (induction n) (auto split: if_splits)

lemma find_start_nonneg: "0 \<le> len \<Longrightarrow> 0 \<le> find_start len i"
  by (simp add: find_start_def)

lemma rfind_bounds:
  assumes "rfind s sub a b \<noteq> - 1"
  shows "find_start (int (length s)) a \<le> rfind s sub a b \<and>
         rfind s sub a b + int (length sub) \<le> find_end (int (length s)) b"
proof -
  let ?a = "find_start (int (length s)) a" and ?b = "find_end (int (length s)) b"
  let ?n = "Suc (nat (?b - ?a - int (length sub)))"
  have ge: "int (length sub) \<le> ?b - ?a"
    using assms by (auto simp: rfind_def Let_def split: if_splits)
  then have eq: "rfind s sub a b = rfind_from s sub (nat ?a) ?n"
    by (simp add: rfind_def Let_def)
  have a0: "0 \<le> ?a" by (simp add: find_start_nonneg)
  from assms eq have "rfind_from s sub (nat ?a) ?n \<noteq> - 1" by simp
  from rfind_from_bounds[OF this] eq a0 ge show ?thesis by auto
qed

lemma sentence_end_bounds:
  assumes "sentence_end t st stop ds = Some e" and "list_all (\<lambda>d. length d = 2) ds"
  shows "find_start (int (length t)) st + 2 \<le> e \<and> e \<le> find_end (int (length t)) stop"
  using assms
proof (induction ds)
  case Nil
  then show ?case by simp
next
  case (Cons d ds)
  show ?case
  proof (cases "rfind t d st stop = - 1")
    case True
    with Cons show ?thesis by simp
  next
    case False
    from rfind_bounds[OF False] Cons.prems False show ?thesis
      by (auto simp: Let_def)
  qed
qed

lemma delimiters_length: "list_all (\<lambda>d. length d = 2) delimiters"
  by (simp add: delimiters_def)

lemma chunk_end_bounds:
  assumes "0 < cs" and "- cs < st"
  shows "1 \<le> chunk_end t cs st \<and> chunk_end t cs st \<le> st + cs"
proof (cases "st + cs < int (length t)")
  case False
  with assms show ?thesis by (simp add: chunk_end_def)
next
  case True
  have fe: "find_end (int (length t)) (st + cs) = st + cs"
    using True assms by (simp add: find_end_def)
  have fs: "0 \<le> find_start (int (length t)) st"
    by (simp add: find_start_nonneg)
  show ?thesis
  proof (cases "sentence_end t st (st + cs) delimiters")
    case (Some e)
    from sentence_end_bounds[OF Some delimiters_length] fe fs True Some show ?thesis
      by (simp add: chunk_end_def)
  next
    case None
    show ?thesis
    proof (cases "rfind t '' '' st (st + cs) = - 1")
      case True
      with None \<open>st + cs < int (length t)\<close> assms show ?thesis
        by (simp add: chunk_end_def)
    next
      case False
      from rfind_bounds[OF False] fe fs None False \<open>st + cs < int (length t)\<close> show ?thesis
        by (simp add: chunk_end_def)
    qed
  qed
qed

lemma py_slice_length:
  assumes "0 < cs" and "1 \<le> e" and "e \<le> st + cs"
  shows "int (length (py_slice t st e)) \<le> cs"
  using assms by (auto simp: py_slice_def slice_index_def Let_def)

lemma strip_length: "length (strip s) \<le> length s"
proof -
  have "length (strip s) \<le> length (dropWhile py_isspace s)"
    unfolding strip_def using length_dropWhile_le[of py_isspace "rev (dropWhile py_isspace s)"]
    by simp
  also have "\<dots> \<le> length s" by (rule length_dropWhile_le)
  finally show ?thesis .
qed

lemma chunk_at_length:
  assumes "0 < cs" and "- cs < st"
  shows "int (length (chunk_at t cs st)) \<le> cs"
proof -
  from chunk_end_bounds[OF assms, of t]
  have "int (length (py_slice t st (chunk_end t cs st))) \<le> cs"
    using assms(1) by (intro py_slice_length) simp_all
  with strip_length[of "py_slice t st (chunk_end t cs st)"] show ?thesis by linarith
qed

lemma next_start_lower:
  assumes "0 \<le> ov" and "ov < cs" and "- cs < st"
  shows "- cs < next_start t cs ov st (chunk_end t cs st)"
  using assms chunk_end_bounds[of cs st t] by (auto simp: next_start_def)

lemma chunk_length_le_chunk_size:
  assumes "0 \<le> ov" and "ov < cs"
  shows "list_all (\<lambda>c. int (length c) \<le> cs) (chunk_text t cs ov)"
proof (cases "t = []")
  case True
  then show ?thesis by (simp add: chunk_text_def chunk_text_run_def)
next
  case False
  have "list_all (\<lambda>c. int (length c) \<le> cs) (fst (chunk_loop t cs ov 0 [] 0))"
  proof (rule chunk_loop_invariant[where I = "\<lambda>st. - cs < st"])
    show "- cs < 0" using assms by simp
  next
    show "list_all (\<lambda>c. int (length c) \<le> cs) []" by simp
  next
    fix st assume "- cs < st"
    then show "- cs < next_start t cs ov st (chunk_end t cs st)"
      using assms by (intro next_start_lower)
  next
    fix st assume "- cs < st"
    then show "int (length (chunk_at t cs st)) \<le> cs"
      using assms by (intro chunk_at_length) simp_all
  qed
  with False show ?thesis by (simp add: chunk_text_def chunk_text_run_def)
qed

lemma longest_delimiter: "longest_delimiter_length = 2"
  by (simp add: longest_delimiter_length_def delimiters_def)

text \<open>
  Claim C7: for every text and every configuration with \<open>chunk_size > overlap >= 0\<close>,
  every chunk returned by \<open>chunk_text\<close>, except possibly the last, is at most
  \<open>chunk_size\<close> plus the length of the longest delimiter (2) characters long.
\<close>

theorem chunk_bound:
  assumes "0 \<le> ov" and "ov < cs" and "c \<in> set (butlast (chunk_text t cs ov))"
  shows "int (length c) \<le> cs + int longest_delimiter_length"
proof -
  from assms(3) have "c \<in> set (chunk_text t cs ov)" by (rule in_set_butlastD)
  with chunk_length_le_chunk_size[OF assms(1,2), of t] have "int (length c) \<le> cs"
    by (simp add: list_all_iff)
  then show ?thesis by simp
qed

lemma chunk_text_example:
  "chunk_text ''aaaa bbbb cccc'' 6 1 = [''aaaa'', ''bbbb'', ''cccc'']"
  by code_simp

theorem chunk_bound_witness:
  "(0::int) \<le> 1 \<and> (1::int) < 6 \<and>
   ''bbbb'' \<in> set (butlast (chunk_text ''aaaa bbbb cccc'' 6 1)) \<and>
   int (length ''bbbb'') \<le> 6 + int longest_delimiter_length"
  using chunk_bound[of 1 6 "''bbbb''" "''aaaa bbbb cccc''"]
  by (simp add: chunk_text_example)

section \<open>Coverage of the text\<close>


lemma last_dropWhile: "dropWhile P xs \<noteq> [] \<Longrightarrow> last (dropWhile P xs) = last xs"
  by (induction xs) (auto split: if_splits)

lemma strip_trimmed:
  assumes "strip s \<noteq> []"
  shows "\<not> py_isspace (hd (strip s)) \<and> \<not> py_isspace (last (strip s))"
proof -
  let ?u = "dropWhile py_isspace s"
  let ?w = "dropWhile py_isspace (rev ?u)"
  have w: "?w \<noteq> []" using assms by (simp add: strip_def)
  have u: "?u \<noteq> []"
  proof
    assume "?u = []"
    then have "?w = []" by (simp only: rev.simps dropWhile.simps)
    with w show False by contradiction
  qed
  have "last (strip s) = hd ?w"
    using w by (simp add: strip_def last_rev)
  moreover have "\<not> py_isspace (hd ?w)"
    using w by (rule hd_dropWhile)
  moreover have "hd (strip s) = last ?w"
    using w by (simp add: strip_def hd_rev)
  moreover have "last ?w = last (rev ?u)"
    using w by (rule last_dropWhile)
  moreover have "last (rev ?u) = hd ?u"
    using u by (simp add: last_rev)
  moreover have "\<not> py_isspace (hd ?u)"
    using u by (rule hd_dropWhile)
  ultimately show ?thesis by simp
qed

lemma strip_piece: "\<exists>before after. s = before @ strip s @ after"
proof -
  let ?u = "dropWhile py_isspace s"
  have "s = takeWhile py_isspace s @ ?u" by simp
  moreover have "strip s @ rev (takeWhile py_isspace (rev ?u)) =
      rev (takeWhile py_isspace (rev ?u) @ dropWhile py_isspace (rev ?u))"
    by (simp only: strip_def rev_append)
  then have "strip s @ rev (takeWhile py_isspace (rev ?u)) = ?u"
    by (simp only: takeWhile_dropWhile_id rev_rev_ident)
  ultimately have "s = takeWhile py_isspace s @ strip s @ rev (takeWhile py_isspace (rev ?u))"
    by simp
  then show ?thesis by blast
qed

lemma py_slice_piece: "\<exists>before after. s = before @ py_slice s a b @ after"
proof -
  let ?a = "slice_index (int (length s)) a" and ?b = "slice_index (int (length s)) b"
  have "s = take ?a s @ take (?b - ?a) (drop ?a s) @ drop (?b - ?a) (drop ?a s)"
    by (simp only: append_take_drop_id)
  then show ?thesis unfolding py_slice_def Let_def by blast
qed

lemma chunk_at_piece: "\<exists>before after. t = before @ chunk_at t cs st @ after"
proof -
  obtain b1 a1 where 1: "t = b1 @ py_slice t st (chunk_end t cs st) @ a1"
    using py_slice_piece by blast
  obtain b2 a2 where 2: "py_slice t st (chunk_end t cs st) = b2 @ chunk_at t cs st @ a2"
    using strip_piece by blast
  have "t = (b1 @ b2) @ chunk_at t cs st @ (a2 @ a1)"
    by (subst 1, subst 2) simp
  then show ?thesis by blast
qed

lemma chunks_trimmed_pieces: "list_all (trimmed_piece t) (chunk_text t cs ov)"
proof (cases "t = []")
  case True
  then show ?thesis by (simp add: chunk_text_def chunk_text_run_def)
next
  case False
  have "list_all (trimmed_piece t) (fst (chunk_loop t cs ov 0 [] 0))"
  proof (rule chunk_loop_invariant[where I = "\<lambda>st. True"])
    fix st assume "chunk_at t cs st \<noteq> []"
    then show "trimmed_piece t (chunk_at t cs st)"
      unfolding trimmed_piece_def using strip_trimmed chunk_at_piece by blast
  qed simp_all
  with False show ?thesis by (simp add: chunk_text_def chunk_text_run_def)
qed

lemma single_window:
  assumes "t \<noteq> []" and "int (length t) \<le> cs"
  shows "chunk_text t cs ov = emit [] (strip t)"
proof -
  have L: "0 < int (length t)" using assms(1) by simp
  have cs: "0 < cs" using L assms(2) by linarith
  have e: "chunk_end t cs 0 = cs" using assms(2) by (simp add: chunk_end_def)
  have sl: "py_slice t 0 cs = t"
    using assms cs by (simp add: py_slice_def slice_index_def)
  have nx: "next_start t cs ov 0 cs = int (length t)"
    using assms cs by (simp add: next_start_def)
  have "chunk_loop t cs ov 0 [] 0 = chunk_loop t cs ov (int (length t)) (emit [] (strip t)) (Suc 0)"
    using L by (simp add: chunk_loop_step[of 0] e sl nx max_iterations_def)
  also have "\<dots> = (emit [] (strip t), Suc 0)"
    by (rule chunk_loop_stop) simp
  finally show ?thesis using assms(1) by (simp add: chunk_text_def chunk_text_run_def)
qed



subsection \<open>Without overlap\<close>

lemma chunk_loop_state_invariant:
  assumes "Inv start chunks n"
    and step: "\<And>st ch k. Inv st ch k \<Longrightarrow> st < int (length t) \<Longrightarrow> k < max_iterations \<Longrightarrow>
           Inv (next_start t cs ov st (chunk_end t cs st)) (emit ch (chunk_at t cs st)) (Suc k)"
  shows "\<exists>st'. Inv st' (fst (chunk_loop t cs ov start chunks n))
                     (snd (chunk_loop t cs ov start chunks n)) \<and>
               \<not> (st' < int (length t) \<and> snd (chunk_loop t cs ov start chunks n) < max_iterations)"
  using assms(1)
proof (induction start chunks n rule: chunk_loop_induct[where t = t and cs = cs and ov = ov])
  case (step start chunks n)
  show ?case
  proof (cases "start < int (length t) \<and> n < max_iterations")
    case True
    then have "Inv (next_start t cs ov start (chunk_end t cs start))
        (emit chunks (chunk_at t cs start)) (Suc n)"
      using step.prems assms(2) by simp
    with True step.IH show ?thesis by (simp add: chunk_loop_step)
  next
    case False
    with step.prems show ?thesis by (auto simp: chunk_loop_stop)
  qed
qed

lemma chunk_end_advances:
  assumes "0 < cs" and "0 \<le> st"
  shows "st < chunk_end t cs st"
proof (cases "st + cs < int (length t)")
  case False
  with assms show ?thesis by (simp add: chunk_end_def)
next
  case True
  have fs: "find_start (int (length t)) st = st"
    using assms by (simp add: find_start_def)
  show ?thesis
  proof (cases "sentence_end t st (st + cs) delimiters")
    case (Some e)
    from sentence_end_bounds[OF Some delimiters_length] fs True Some show ?thesis
      by (simp add: chunk_end_def)
  next
    case None
    show ?thesis
    proof (cases "rfind t '' '' st (st + cs) = - 1")
      case True
      with None \<open>st + cs < int (length t)\<close> assms show ?thesis
        by (simp add: chunk_end_def)
    next
      case False
      from rfind_bounds[OF False] fs None False \<open>st + cs < int (length t)\<close> show ?thesis
        by (simp add: chunk_end_def)
    qed
  qed
qed

lemma cut_into_step:
  assumes "cut_into t (nat st) windows ch" and "0 \<le> st" and "st < int (length t)"
    and "st < e"
  shows "cut_into t (nat (next_start t cs 0 st e)) (windows @ [py_slice t st e])
           (emit ch (strip (py_slice t st e)))"
proof -
  let ?st' = "next_start t cs 0 st e"
  have st': "?st' = min e (int (length t))"
    using assms by (simp add: next_start_def min_def)
  have sl: "py_slice t st e = take (nat ?st' - nat st) (drop (nat st) t)"
    using assms by (auto simp: st' py_slice_def slice_index_def Let_def min_def)
  have "nat ?st' = nat st + (nat ?st' - nat st)"
    using assms by (simp add: st' min_def)
  then have "take (nat ?st') t = take (nat st) t @ take (nat ?st' - nat st) (drop (nat st) t)"
    using take_add[of "nat st" "nat ?st' - nat st" t] by simp
  with assms(1) sl show ?thesis
    by (simp add: cut_into_def)
qed

lemma no_overlap_windows:
  assumes "0 < cs" and "length t \<le> max_iterations"
  shows "\<exists>windows. concat windows = t \<and>
           chunk_text t cs 0 = filter (\<lambda>c. c \<noteq> []) (map strip windows)"
proof (cases "t = []")
  case True
  have "concat [] = t \<and> chunk_text t cs 0 = filter (\<lambda>c. c \<noteq> []) (map strip [])"
    using True by (simp add: chunk_text_def chunk_text_run_def)
  then show ?thesis by blast
next
  case False
  let ?Inv = "\<lambda>st ch k. 0 \<le> st \<and> st \<le> int (length t) \<and> int k \<le> st \<and>
      (\<exists>windows. cut_into t (nat st) windows ch)"
  let ?r = "chunk_loop t cs 0 0 [] 0"
  have "\<exists>st'. ?Inv st' (fst ?r) (snd ?r) \<and> \<not> (st' < int (length t) \<and> snd ?r < max_iterations)"
  proof (rule chunk_loop_state_invariant[where Inv = ?Inv])
    have "cut_into t (nat 0) [] []" by (simp add: cut_into_def)
    then show "?Inv 0 [] 0" by auto
  next
    fix st ch k
    assume inv: "?Inv st ch k" and lt: "st < int (length t)" and "k < max_iterations"
    then obtain windows where w: "cut_into t (nat st) windows ch" by blast
    have adv: "st < chunk_end t cs st"
      using assms(1) inv by (intro chunk_end_advances) simp_all
    let ?st' = "next_start t cs 0 st (chunk_end t cs st)"
    have st': "?st' = min (chunk_end t cs st) (int (length t))"
      using adv by (simp add: next_start_def min_def)
    have "cut_into t (nat ?st') (windows @ [py_slice t st (chunk_end t cs st)])
        (emit ch (chunk_at t cs st))"
      using w inv lt adv by (intro cut_into_step) simp_all
    then have "\<exists>windows. cut_into t (nat ?st') windows (emit ch (chunk_at t cs st))"
      by blast
    moreover have "0 \<le> ?st' \<and> ?st' \<le> int (length t) \<and> int (Suc k) \<le> ?st'"
      using inv lt adv by (simp add: st' min_def)
    ultimately show "?Inv ?st' (emit ch (chunk_at t cs st)) (Suc k)" by simp
  qed
  then obtain st' windows where
    b: "0 \<le> st'" "st' \<le> int (length t)" "int (snd ?r) \<le> st'" and
    w: "cut_into t (nat st') windows (fst ?r)" and
    ex: "\<not> (st' < int (length t) \<and> snd ?r < max_iterations)"
    by blast
  have "st' = int (length t)"
    using b ex assms(2) by (cases "st' < int (length t)") auto
  with w have "concat windows = t \<and> fst ?r = filter (\<lambda>c. c \<noteq> []) (map strip windows)"
    by (simp add: cut_into_def)
  with False show ?thesis
    by (auto simp: chunk_text_def chunk_text_run_def)
qed

section \<open>Windows and chunks\<close>


lemma span_loop_step:
  "start < int (length t) \<Longrightarrow> n < max_iterations \<Longrightarrow>
   span_loop t cs ov start spans n =
     span_loop t cs ov (next_start t cs ov start (chunk_end t cs start))
       (spans @ [(start, chunk_end t cs start)]) (Suc n)"
  by (subst span_loop.simps) (simp add: Let_def)

lemma span_loop_stop:
  "\<not> (start < int (length t) \<and> n < max_iterations) \<Longrightarrow>
   span_loop t cs ov start spans n = spans"
  by (subst span_loop.simps) auto

lemma span_loop_induct [case_names step]:
  assumes step: "\<And>start spans n.
     (start < int (length t) \<Longrightarrow> n < max_iterations \<Longrightarrow>
        P (next_start t cs ov start (chunk_end t cs start))
          (spans @ [(start, chunk_end t cs start)]) (Suc n)) \<Longrightarrow>
     P start spans n"
  shows "P start spans n"
proof (induction k \<equiv> "max_iterations - n" arbitrary: start spans n)
  case 0
  show ?case
  proof (rule step)
    assume "n < max_iterations"
    with 0 show "P (next_start t cs ov start (chunk_end t cs start))
          (spans @ [(start, chunk_end t cs start)]) (Suc n)"
      by simp
  qed
next
  case (Suc k)
  show ?case
  proof (rule step)
    assume "n < max_iterations"
    with Suc(2) have "k = max_iterations - Suc n" by simp
    then show "P (next_start t cs ov start (chunk_end t cs start))
          (spans @ [(start, chunk_end t cs start)]) (Suc n)"
      by (rule Suc(1))
  qed
qed

lemma stripped_snoc: "stripped (ws @ [w]) = emit (stripped ws) (strip w)"
  by (simp add: stripped_def)

lemma chunk_loop_spans:
  "fst (chunk_loop t cs ov start (stripped (map (window t) spans)) n) =
   stripped (map (window t) (span_loop t cs ov start spans n))"
proof (induction start spans n rule: span_loop_induct[where t = t and cs = cs and ov = ov])
  case (step start spans n)
  show ?case
  proof (cases "start < int (length t) \<and> n < max_iterations")
    case True
    have "stripped (map (window t) (spans @ [(start, chunk_end t cs start)])) =
        emit (stripped (map (window t) spans)) (chunk_at t cs start)"
      by (simp add: stripped_snoc window_def)
    with True step show ?thesis
      by (simp add: chunk_loop_step span_loop_step)
  next
    case False
    then show ?thesis by (simp add: chunk_loop_stop span_loop_stop)
  qed
qed

lemma chunks_of_windows: "chunk_text t cs ov = stripped (chunk_windows t cs ov)"
proof (cases "t = []")
  case True
  then show ?thesis
    by (simp add: chunk_text_def chunk_text_run_def chunk_windows_def chunk_spans_def stripped_def)
next
  case False
  with chunk_loop_spans[of t cs ov 0 "[]" 0] show ?thesis
    by (simp add: chunk_text_def chunk_text_run_def chunk_windows_def chunk_spans_def stripped_def)
qed

lemma span_loop_prefix: "\<exists>rest. span_loop t cs ov start spans n = spans @ rest"
proof (induction start spans n rule: span_loop_induct[where t = t and cs = cs and ov = ov])
  case (step start spans n)
  show ?case
  proof (cases "start < int (length t) \<and> n < max_iterations")
    case True
    with step obtain rest where
      "span_loop t cs ov start spans n = (spans @ [(start, chunk_end t cs start)]) @ rest"
      by (auto simp: span_loop_step)
    then show ?thesis by simp
  next
    case False
    then show ?thesis by (simp add: span_loop_stop)
  qed
qed


lemma reconstruct_single: "reconstruct ov [w] = w"
  by (simp add: reconstruct_def)

lemma reconstruct_snoc:
  "ws \<noteq> [] \<Longrightarrow> reconstruct ov (ws @ [w]) = reconstruct ov ws @ drop (nat ov) w"
  by (cases ws) (simp_all add: reconstruct_def)

lemma py_slice_take_drop:
  assumes "0 \<le> st" and "st \<le> e"
  shows "py_slice t st e =
         take (nat (min e (int (length t))) - nat st) (drop (nat st) t)"
  using assms by (auto simp: py_slice_def slice_index_def Let_def min_def)

lemma take_append_window:
  assumes "i \<le> b \<or> length t \<le> b"
  shows "take i t @ take (b - i) (drop i t) = take b t"
proof (cases "i \<le> b")
  case True
  then have "b = i + (b - i)" by simp
  then show ?thesis using take_add[of i "b - i" t] by simp
next
  case False
  with assms have "length t \<le> b" "length t \<le> i" by simp_all
  then show ?thesis by simp
qed

lemma covered_step:
  assumes ov: "0 \<le> ov" and c: "covered t ov st spans" and lt: "st < int (length t)"
    and ext: "st + ov < e"
  shows "covered t ov (next_start t cs ov st e) (spans @ [(st, e)])"
proof -
  let ?L = "int (length t)"
  let ?st' = "next_start t cs ov st e"
  let ?b = "nat (min e ?L)"
  from c have st: "0 \<le> st" "st \<le> ?L" by (simp_all add: covered_def)
  have st': "?st' = (if e < ?L then e - ov else ?L)"
    using ext ov by (simp add: next_start_def)
  have bounds: "0 \<le> ?st'" "?st' \<le> ?L"
    using st' st ext ov by (auto split: if_splits)
  have w: "window t (st, e) = take (?b - nat st) (drop (nat st) t)"
    using st ext ov by (simp add: window_def py_slice_take_drop)
  have target: "take ?b t = take (nat (?st' + ov)) t"
    using st' ov by (auto simp: min_def)
  have "reconstruct ov (map (window t) (spans @ [(st, e)])) = take ?b t"
  proof (cases "spans = []")
    case True
    with c have "st = 0" by (simp add: covered_def)
    with True w show ?thesis by (simp add: reconstruct_single)
  next
    case False
    with c have r: "reconstruct ov (map (window t) spans) = take (nat (st + ov)) t"
      by (simp add: covered_def)
    have d: "drop (nat ov) (window t (st, e)) =
        take (?b - nat (st + ov)) (drop (nat (st + ov)) t)"
      using st ov by (simp add: w drop_take nat_add_distrib add.commute)
    have "reconstruct ov (map (window t) (spans @ [(st, e)])) =
        take (nat (st + ov)) t @ take (?b - nat (st + ov)) (drop (nat (st + ov)) t)"
      using False by (simp add: reconstruct_snoc r d)
    also have "\<dots> = take ?b t"
    proof (rule take_append_window)
      show "nat (st + ov) \<le> ?b \<or> length t \<le> ?b"
        using ext st ov by (auto simp: min_def)
    qed
    finally show ?thesis .
  qed
  with target bounds show ?thesis by (simp add: covered_def)
qed


lemma span_loop_covered:
  assumes ov: "0 \<le> ov" and len: "length t \<le> max_iterations" and ne: "t \<noteq> []"
  shows "list_all (extends_overlap ov) (span_loop t cs ov start spans n) \<Longrightarrow>
         covered t ov start spans \<Longrightarrow> int n \<le> start \<Longrightarrow>
         reconstruct ov (map (window t) (span_loop t cs ov start spans n)) = t"
proof (induction start spans n rule: span_loop_induct[where t = t and cs = cs and ov = ov])
  case (step start spans n)
  let ?e = "chunk_end t cs start"
  let ?st' = "next_start t cs ov start ?e"
  show ?case
  proof (cases "start < int (length t) \<and> n < max_iterations")
    case True
    then have eq: "span_loop t cs ov start spans n =
        span_loop t cs ov ?st' (spans @ [(start, ?e)]) (Suc n)"
      by (simp add: span_loop_step)
    obtain rest where "span_loop t cs ov ?st' (spans @ [(start, ?e)]) (Suc n) =
        (spans @ [(start, ?e)]) @ rest"
      using span_loop_prefix by blast
    with step.prems(1) eq have "extends_overlap ov (start, ?e)" by simp
    then have ext: "start + ov < ?e" by (simp add: extends_overlap_def)
    have c: "covered t ov ?st' (spans @ [(start, ?e)])"
      using ov step.prems(2) True ext by (intro covered_step) simp_all
    have "int (Suc n) \<le> ?st'"
      using ext ov step.prems(3) True by (auto simp: next_start_def)
    with step.IH True step.prems(1) eq c show ?thesis by simp
  next
    case False
    from step.prems(2) have b: "0 \<le> start" "start \<le> int (length t)"
      by (simp_all add: covered_def)
    have "start = int (length t)"
      using False b step.prems(3) len by (cases "start < int (length t)") auto
    moreover from this ne have "spans \<noteq> []"
      using step.prems(2) by (auto simp: covered_def)
    ultimately have "reconstruct ov (map (window t) spans) = t"
      using step.prems(2) ov by (simp add: covered_def)
    with False show ?thesis by (simp add: span_loop_stop)
  qed
qed

lemma windows_cover:
  assumes "0 \<le> ov" and "length t \<le> max_iterations"
    and "list_all (extends_overlap ov) (chunk_spans t cs ov)"
  shows "reconstruct ov (chunk_windows t cs ov) = t"
proof (cases "t = []")
  case True
  then show ?thesis by (simp add: chunk_windows_def chunk_spans_def reconstruct_def)
next
  case False
  have "covered t ov 0 []" by (simp add: covered_def)
  with span_loop_covered[OF assms(1,2) False, of cs 0 "[]" 0] assms(3) False
  show ?thesis by (simp add: chunk_windows_def chunk_spans_def)
qed

lemma spans_example:
  "chunk_spans ''aaaa bbbb cccc'' 6 1 = [(0, 5), (4, 10), (9, 15)]"
  by code_simp

lemma windows_example:
  "chunk_windows ''aaaa bbbb cccc'' 6 1 = [''aaaa '', '' bbbb '', '' cccc'']"
  by code_simp


text \<open>
  Claim C6 says that the chunks of a non-empty text, concatenated with the overlaps
  removed, give back the text exactly. Every chunk is stripped of leading and trailing
  whitespace before it is stored: the text \<open>" a"\<close> has the single chunk \<open>"a"\<close>, and its
  leading space is lost.
\<close>

theorem chunk_coverage_counterexample:
  "chunk_text '' a'' 500 50 = [''a''] \<and> reconstruct 50 (chunk_text '' a'' 500 50) \<noteq> '' a''"
  by (simp add: single_window strip_def py_isspace_def reconstruct_def)

text \<open>
  Claim C6 as amended: the windows \<open>text[start:end]\<close> of the loop, concatenated with
  the first \<open>overlap\<close> characters of every window after the first removed, give back
  the text exactly, for every text of at most 10000 characters and every
  \<open>overlap >= 0\<close>, whenever every window reaches beyond its overlap
  (\<open>start + overlap < end\<close>). The chunks returned are these windows stripped of leading
  and trailing whitespace, the empty results left out: every chunk is a non-empty
  contiguous piece of the text that neither begins nor ends with whitespace, and the
  chunks give back the text only up to the whitespace at the edges of the windows.
\<close>

theorem chunk_coverage_trimmed:
  "chunk_text t cs ov = stripped (chunk_windows t cs ov) \<and>
   list_all (trimmed_piece t) (chunk_text t cs ov) \<and>
   (0 \<le> ov \<longrightarrow> length t \<le> max_iterations \<longrightarrow>
      list_all (extends_overlap ov) (chunk_spans t cs ov) \<longrightarrow>
      reconstruct ov (chunk_windows t cs ov) = t)"
  using chunks_of_windows[of t cs ov] chunks_trimmed_pieces[of t cs ov] windows_cover[of ov t cs]
  by blast

theorem chunk_coverage_trimmed_witness:
  "(0::int) \<le> 1 \<and> length ''aaaa bbbb cccc'' \<le> max_iterations \<and>
   list_all (extends_overlap 1) (chunk_spans ''aaaa bbbb cccc'' 6 1) \<and>
   reconstruct 1 (chunk_windows ''aaaa bbbb cccc'' 6 1) = ''aaaa bbbb cccc'' \<and>
   chunk_text ''aaaa bbbb cccc'' 6 1 = stripped [''aaaa '', '' bbbb '', '' cccc'']"
  using chunk_coverage_trimmed[of "''aaaa bbbb cccc''" 6 1]
  by (simp add: spans_example windows_example extends_overlap_def max_iterations_def)

section \<open>Progress of the cursor\<close>

text \<open>
  Under a valid configuration the end of a window lies after the cursor, so the test
  \<open>end <= start\<close> that guards the forced advance is never true.
\<close>

lemma forced_advance_unreachable:
  assumes "0 < cs" and "- cs < st"
  shows "\<not> chunk_end t cs st \<le> st"
proof (cases "0 \<le> st")
  case True
  with assms(1) show ?thesis using chunk_end_advances[of cs st t] by simp
next
  case False
  with chunk_end_bounds[OF assms, of t] show ?thesis by simp
qed

lemma next_start_valid:
  assumes "0 \<le> ov" and "ov < cs" and "- cs < st"
  shows "next_start t cs ov st (chunk_end t cs st) =
     (if chunk_end t cs st < int (length t) then chunk_end t cs st - ov else int (length t))"
  using forced_advance_unreachable[of cs st t] assms by (simp add: next_start_def)

lemma stuck_cursor_loop:
  assumes lt: "st < int (length t)"
    and e: "chunk_end t cs st = e" and c: "strip (py_slice t st e) = c" and ne: "c \<noteq> []"
    and same: "next_start t cs ov st e = st"
  shows "chunk_loop t cs ov st chunks n =
     (chunks @ replicate (max_iterations - n) c, max n max_iterations)"
proof (induction k \<equiv> "max_iterations - n" arbitrary: chunks n)
  case 0
  then show ?case by (simp add: chunk_loop_stop)
next
  case (Suc k)
  then have n: "n < max_iterations" and k: "k = max_iterations - Suc n" by simp_all
  have "chunk_loop t cs ov st chunks n = chunk_loop t cs ov st (chunks @ [c]) (Suc n)"
    using n lt ne by (simp add: chunk_loop_step e c same)
  also have "\<dots> = ((chunks @ [c]) @ replicate (max_iterations - Suc n) c,
      max (Suc n) max_iterations)"
    by (rule Suc(1)[OF k])
  also have "\<dots> = (chunks @ replicate (max_iterations - n) c, max n max_iterations)"
  proof -
    have "replicate (max_iterations - n) c = c # replicate k c"
      using Suc(2)[symmetric] by simp
    then show ?thesis
      using n by (simp add: k[symmetric] max_def)
  qed
  finally show ?case .
qed

lemma livelock_first_step:
  "chunk_end ''Ok. abcdefgh'' 5 0 = 4 \<and> strip (py_slice ''Ok. abcdefgh'' 0 4) = ''Ok.'' \<and>
   next_start ''Ok. abcdefgh'' 5 2 0 4 = 2"
  by code_simp

lemma livelock_step:
  "chunk_end ''Ok. abcdefgh'' 5 2 = 4 \<and> strip (py_slice ''Ok. abcdefgh'' 2 4) = ''.'' \<and>
   next_start ''Ok. abcdefgh'' 5 2 2 4 = 2"
  by code_simp

text \<open>
  Claim C8: chunking a text of length \<open>L\<close> ends within a number of steps proportional to
  \<open>L / max(1, chunk_size - overlap)\<close>, a step that would not advance the cursor is forced
  to advance it by at least \<open>chunk_size\<close>, and exceeding the iteration bound is raised as
  an error instead of truncating the chunk list. The code states the intent
  (\<open>Ensure we always make progress\<close>, \<open>Prevent infinite loop if we're not moving
  forward\<close>) but tests only \<open>end <= start\<close>, which no valid configuration reaches, and
  not \<open>end - overlap <= start\<close>. On the 12 characters \<open>Ok. abcdefgh\<close> with
  \<open>chunk_size = 5\<close> and \<open>overlap = 2\<close> the first window ends after \<open>". "\<close> at 4, the
  cursor goes to 2, and every later window ends at 4 again: the loop runs its 10000
  iterations and returns \<open>Ok.\<close> followed by 9999 chunks \<open>.\<close>, without an error and
  without ever reaching \<open>abcdefgh\<close>.
\<close>

theorem chunk_text_livelock:
  "chunk_text_run ''Ok. abcdefgh'' 5 2 = (''Ok.'' # replicate 9999 ''.'', 10000)"
proof -
  have "chunk_text_run ''Ok. abcdefgh'' 5 2 = chunk_loop ''Ok. abcdefgh'' 5 2 2 [''Ok.''] 1"
    by (simp add: chunk_text_run_def chunk_loop_step[of 0] livelock_first_step
        max_iterations_def)
  also have "\<dots> = ([''Ok.''] @ replicate (max_iterations - 1) ''.'', max 1 max_iterations)"
    by (rule stuck_cursor_loop[where e = 4]) (simp_all add: livelock_step)
  finally show ?thesis by (simp add: max_iterations_def)
qed

subsection \<open>The default configuration\<close>

lemma rfind_from_last:
  assumes "lo \<le> p" and "p < lo + n" and "take (length sub) (drop p s) = sub"
    and "\<And>i. p < i \<Longrightarrow> i < lo + n \<Longrightarrow> take (length sub) (drop i s) \<noteq> sub"
  shows "rfind_from s sub lo n = int p"
  using assms
proof (induction n)
  case 0
  then show ?case by simp
next
  case (Suc n)
  show ?case
  proof (cases "p = lo + n")
    case True
    with Suc.prems(3) show ?thesis by simp
  next
    case False
    with Suc.prems have "p < lo + n" by simp
    moreover have "take (length sub) (drop (lo + n) s) \<noteq> sub"
      using Suc.prems(4)[of "lo + n"] \<open>p < lo + n\<close> by simp
    ultimately show ?thesis
      using Suc.IH[OF Suc.prems(1) _ Suc.prems(3)] Suc.prems(4) by simp
  qed
qed

lemma sentence_then_run_length: "length (sentence_then_run a b) = a + 2 + b"
  by (simp add: sentence_then_run_def)

lemma drop_sentence:
  "i \<le> a \<Longrightarrow> drop i (sentence_then_run a b) =
     replicate (a - i) CHR ''x'' @ ''. '' @ replicate b CHR ''y''"
  by (simp add: sentence_then_run_def)

lemma no_later_delimiter:
  assumes "a < i"
  shows "take n (drop i (sentence_then_run a b)) \<noteq> ''. ''"
proof
  assume eq: "take n (drop i (sentence_then_run a b)) = ''. ''"
  obtain j where i: "i = j + Suc a" using assms by (metis less_iff_Suc_add add.commute add_Suc_right)
  have "drop i (sentence_then_run a b) = drop j (drop (Suc a) (sentence_then_run a b))"
    by (simp add: i)
  also have "drop (Suc a) (sentence_then_run a b) = CHR '' '' # replicate b CHR ''y''"
    by (simp add: sentence_then_run_def)
  finally have "set (drop i (sentence_then_run a b)) \<subseteq> {CHR '' '', CHR ''y''}"
    using set_drop_subset[of j "CHR '' '' # replicate b CHR ''y''"] by auto
  moreover have "CHR ''.'' \<in> set (take n (drop i (sentence_then_run a b)))"
    by (simp add: eq)
  ultimately show False
    using set_take_subset[of n "drop i (sentence_then_run a b)"] by auto
qed

lemma rfind_sentence:
  assumes "st \<le> a" and "a + 2 \<le> st + cs" and "st + cs \<le> a + 2 + b"
  shows "rfind (sentence_then_run a b) ''. '' (int st) (int st + int cs) = int a"
proof -
  let ?t = "sentence_then_run a b"
  have fs: "find_start (int (length ?t)) (int st) = int st"
    by (simp add: find_start_def)
  have fe: "find_end (int (length ?t)) (int st + int cs) = int st + int cs"
    using assms by (simp add: find_end_def sentence_then_run_length)
  have cs: "2 \<le> cs" using assms by simp
  have "rfind ?t ''. '' (int st) (int st + int cs) =
      rfind_from ?t ''. '' st (Suc (cs - 2))"
    using cs by (simp add: rfind_def fs fe Let_def nat_diff_distrib)
  also have "\<dots> = int a"
  proof (rule rfind_from_last)
    show "st \<le> a" by (rule assms(1))
    show "a < st + Suc (cs - 2)" using assms cs by simp
    show "take (length ''. '') (drop a ?t) = ''. ''"
      by (simp add: drop_sentence)
    fix i assume "a < i"
    then show "take (length ''. '') (drop i ?t) \<noteq> ''. ''"
      by (rule no_later_delimiter)
  qed
  finally show ?thesis .
qed

lemma chunk_end_sentence:
  assumes "st \<le> a" and "a + 2 \<le> st + cs" and "st + cs < a + 2 + b"
  shows "chunk_end (sentence_then_run a b) (int cs) (int st) = int a + 2"
proof -
  have "rfind (sentence_then_run a b) ''. '' (int st) (int st + int cs) = int a"
    using assms by (intro rfind_sentence) simp_all
  then show ?thesis
    using assms(3)
    by (simp add: chunk_end_def delimiters_def sentence_then_run_length Let_def)
qed

lemma not_space: "\<not> py_isspace CHR ''x''" "\<not> py_isspace CHR ''.''" "py_isspace CHR '' ''"
  by (simp_all add: py_isspace_def)

lemma window_sentence:
  assumes "st < a"
  shows "strip (py_slice (sentence_then_run a b) (int st) (int a + 2)) =
         replicate (a - st) CHR ''x'' @ ''.''"
proof -
  have sl: "py_slice (sentence_then_run a b) (int st) (int a + 2) =
      replicate (a - st) CHR ''x'' @ ''. ''"
    using assms
    by (simp add: py_slice_def slice_index_def sentence_then_run_length Let_def
        drop_sentence nat_add_distrib nat_diff_distrib)
  obtain k where k: "a - st = Suc k" using assms by (cases "a - st") simp_all
  show ?thesis
    by (simp add: sl strip_def k not_space)
qed

lemma default_first_step:
  "chunk_end (sentence_then_run 60 1000) 500 0 = 62 \<and>
   strip (py_slice (sentence_then_run 60 1000) 0 62) = replicate 60 CHR ''x'' @ ''.'' \<and>
   next_start (sentence_then_run 60 1000) 500 50 0 62 = 12"
  using chunk_end_sentence[of 0 60 500 1000] window_sentence[of 0 60 1000]
  by (simp add: next_start_def sentence_then_run_length)

lemma default_step:
  "chunk_end (sentence_then_run 60 1000) 500 12 = 62 \<and>
   strip (py_slice (sentence_then_run 60 1000) 12 62) = replicate 48 CHR ''x'' @ ''.'' \<and>
   next_start (sentence_then_run 60 1000) 500 50 12 62 = 12"
  using chunk_end_sentence[of 12 60 500 1000] window_sentence[of 12 60 1000]
  by (simp add: next_start_def sentence_then_run_length)

text \<open>
  The same happens with the default configuration, \<open>chunk_size = 500\<close> and
  \<open>overlap = 50\<close>: on a sentence of 60 letters followed by 1000 letters without a
  delimiter, the cursor stays at 12.
\<close>

lemma default_configuration_livelock:
  "chunk_text_run (sentence_then_run 60 1000) 500 50 =
     ((replicate 60 CHR ''x'' @ ''.'') # replicate 9999 (replicate 48 CHR ''x'' @ ''.''), 10000)"
proof -
  let ?t = "sentence_then_run 60 1000"
  have ne: "?t \<noteq> []" by (simp add: sentence_then_run_def)
  have "chunk_text_run ?t 500 50 = chunk_loop ?t 500 50 12 [replicate 60 CHR ''x'' @ ''.''] 1"
    using ne
    by (simp add: chunk_text_run_def chunk_loop_step[of 0] default_first_step
        sentence_then_run_length max_iterations_def)
  also have "\<dots> = ([replicate 60 CHR ''x'' @ ''.''] @
      replicate (max_iterations - 1) (replicate 48 CHR ''x'' @ ''.''), max 1 max_iterations)"
    by (rule stuck_cursor_loop[where e = 62])
      (simp_all add: default_step sentence_then_run_length)
  finally show ?thesis by (simp add: max_iterations_def)
qed

section \<open>The knowledge base\<close>

lemma those_length: "those xs = Some ys \<Longrightarrow> length ys = length xs"
  by (induction xs arbitrary: ys) (auto split: option.splits)

lemma encode_length: "encode model texts = Some vs \<Longrightarrow> length vs = length texts"
  by (auto simp: encode_def dest: those_length)

lemma add_document_sync:
  assumes "length (documents s) = ntotal (index s)"
    and "add_document s content source = Inr s'"
  shows "length (documents s') = ntotal (index s')"
  using assms
  by (auto simp: add_document_def Let_def index_add_def ntotal_def enumerate_eq_zip
      split: if_splits option.splits sum.splits dest: encode_length)

lemma apply_operation_sync:
  "length (documents s) = ntotal (index s) \<Longrightarrow>
   length (documents (apply_operation s operation)) = ntotal (index (apply_operation s operation))"
proof (cases operation)
  case (AddDocument content source)
  assume "length (documents s) = ntotal (index s)"
  then show ?thesis
    using add_document_sync[of s content source] AddDocument
    by (cases "add_document s content source") auto
next
  case Clear
  then show ?thesis by (simp add: clear_def IndexFlatL2_def ntotal_def)
qed

lemma run_sync:
  "length (documents s) = ntotal (index s) \<Longrightarrow>
   length (documents (run s ops)) = ntotal (index (run s ops))"
  unfolding run_def
  by (induction ops arbitrary: s) (simp_all add: apply_operation_sync)

text \<open>
  Claim C1: after any sequence of completed \<open>add_document\<close> and \<open>clear\<close> calls on a
  freshly initialised system, the number of stored chunk records equals the number of
  vectors in the index. Calls run one after the other; a call of \<open>add_document\<close> that
  raises (the embedding model fails, or the index refuses the vectors) has changed
  neither collection.
\<close>

theorem index_store_sync:
  "length (documents (run (rag_init model model_dim csize coverlap provider client) ops)) =
   ntotal (index (run (rag_init model model_dim csize coverlap provider client) ops))"
  by (rule run_sync) (simp add: rag_init_def IndexFlatL2_def ntotal_def)

text \<open>
  Claim C10: when chunking the text yields no chunks, \<open>add_document\<close> returns normally
  and the system, its index and its document list included, is unchanged; a text that
  is empty or consists of whitespace only yields no chunks.
\<close>

theorem add_document_without_chunks:
  "(chunk_text content (chunk_size s) (chunk_overlap s) = [] \<longrightarrow>
      add_document s content source = Inr s) \<and>
   (list_all py_isspace content \<longrightarrow>
      chunk_text content (chunk_size s) (chunk_overlap s) = [])"
  by (simp add: add_document_def chunk_text_whitespace)

theorem add_document_without_chunks_witness:
  "list_all py_isspace ''  '' \<and> chunk_text ''  '' 500 50 = [] \<and>
   add_document loaded_system ''  '' ''b.txt'' = Inr loaded_system"
  using add_document_without_chunks[of "''  ''" loaded_system "''b.txt''"]
  by (simp add: loaded_system_def example_system_def rag_init_def py_isspace_def)

text \<open>
  Claim C3: for every query and every \<open>top_k <= 0\<close>, \<open>retrieve\<close> on a store that is not
  empty returns the empty sequence and raises no error. \<open>retrieve\<close> has no test of
  \<open>top_k\<close> of its own: it hands \<open>min(top_k, len(documents))\<close> to the search of the index,
  which returns nothing for \<open>k <= 0\<close>. The query is one that the embedding model embeds.
\<close>

theorem retrieve_nonpositive_top_k:
  assumes "top_k \<le> 0" and "documents s \<noteq> []" and "embedding_model s query = Some v"
  shows "retrieve s query top_k = Inr []"
  using assms by (simp add: retrieve_def index_search_def min_def)

theorem retrieve_nonpositive_top_k_witness:
  "(- 1 :: int) \<le> 0 \<and> documents loaded_system \<noteq> [] \<and>
   embedding_model loaded_system ''query'' = Some [5, 1] \<and>
   retrieve loaded_system ''query'' (- 1) = Inr []"
  using retrieve_nonpositive_top_k[of "- 1" loaded_system "''query''" "[5, 1]"]
  by (simp add: loaded_system_def example_system_def rag_init_def length_model_def)

lemma retrieve_example:
  "retrieve loaded_system ''query'' 3 =
     Inr [\<lparr>doc_text = ''hello world'', doc_source = ''a.txt'', chunk_id = 0, score = 36\<rparr>]"
  by (simp add: retrieve_def index_search_def l2_sq_def loaded_system_def example_system_def
      rag_init_def length_model_def example_document_def document.extend_def)

section \<open>Snapshots\<close>

text \<open>
  Claim C4 says that loading a snapshot whose recorded dimension differs from the
  configured embedding dimension fails with an incompatibility error. \<open>load_index\<close>
  compares no dimensions: the system of embedding dimension 2 loads a snapshot of
  dimension 3, returns normally and then holds the index of dimension 3 with its vector.
\<close>

theorem load_index_dimension_counterexample:
  "load_index example_system (no_snapshots(''faiss_index'' \<mapsto> foreign_snapshot)) ''faiss_index'' =
     Inr (example_system\<lparr>index := \<lparr>index_dim = 3, vectors = [[1, 2, 3]]\<rparr>,
                          documents := [example_document]\<rparr>) \<and>
   embedding_dim example_system = 2"
  by (simp add: load_index_def foreign_snapshot_def example_system_def rag_init_def)

text \<open>
  Claim C4 as amended: \<open>load_index\<close> performs no dimension check. For every snapshot
  directory that holds both files, whatever the dimension recorded in it, \<open>load_index\<close>
  returns normally and replaces the index and the documents in memory by those of the
  snapshot; the configured embedding dimension keeps its value.
\<close>

theorem load_index_unchecked:
  assumes "fs path = Some dir" and "index_file dir = Some ix" and "documents_file dir = Some docs"
  shows "load_index s fs path = Inr (s\<lparr>index := ix, documents := docs\<rparr>) \<and>
         embedding_dim (s\<lparr>index := ix, documents := docs\<rparr>) = embedding_dim s"
  using assms by (simp add: load_index_def)

theorem load_index_unchecked_witness:
  "(no_snapshots(''faiss_index'' \<mapsto> foreign_snapshot)) ''faiss_index'' = Some foreign_snapshot \<and>
   index_file foreign_snapshot = Some \<lparr>index_dim = 3, vectors = [[1, 2, 3]]\<rparr> \<and>
   documents_file foreign_snapshot = Some [example_document] \<and>
   load_index loaded_system (no_snapshots(''faiss_index'' \<mapsto> foreign_snapshot)) ''faiss_index'' =
     Inr (loaded_system\<lparr>index := \<lparr>index_dim = 3, vectors = [[1, 2, 3]]\<rparr>,
                         documents := [example_document]\<rparr>)"
  using load_index_unchecked[of "no_snapshots(''faiss_index'' \<mapsto> foreign_snapshot)"
      "''faiss_index''" foreign_snapshot "\<lparr>index_dim = 3, vectors = [[1, 2, 3]]\<rparr>"
      "[example_document]" loaded_system]
  by (simp add: foreign_snapshot_def)

lemma save_clear_load: "load_index (clear s) (save_index s fs path) path = Inr s"
  by (simp add: load_index_def save_index_def clear_def)

text \<open>
  Claim C9: \<open>save_index\<close>, then \<open>clear\<close>, then \<open>load_index\<close> on the same path returns
  normally and restores \<open>get_document_count()\<close>, \<open>list_documents()\<close> and the result of
  \<open>retrieve\<close> for any query and any \<open>top_k\<close> to their values before the \<open>clear\<close>.
\<close>

theorem snapshot_round_trip:
  "\<exists>s'. load_index (clear s) (save_index s fs path) path = Inr s' \<and>
        get_document_count s' = get_document_count s \<and>
        list_documents s' = list_documents s \<and>
        retrieve s' query top_k = retrieve s query top_k"
  by (simp add: save_clear_load)

section \<open>Answer synthesis\<close>

text \<open>
  Claim C5: for every query and every context, empty or not, \<open>synthesize_answer\<close>
  returns a string and raises nothing; when the generation backend fails, the result is
  the extractive fallback answer.
\<close>

theorem synthesize_answer_never_raises:
  "(\<exists>answer. synthesize_answer s openai_create query context_docs = Inr answer) \<and>
   (context_docs \<noteq> [] \<longrightarrow> llm_answer s openai_create query context_docs = Inl e \<longrightarrow>
      synthesize_answer s openai_create query context_docs =
        Inr (fallback_answer query context_docs))"
  by (simp add: synthesize_answer_def split: sum.splits)

theorem synthesize_answer_never_raises_witness:
  "[example_document] \<noteq> [] \<and>
   llm_answer loaded_system failing_backend ''what?'' [example_document] =
     Inl (BackendError ''timeout'') \<and>
   synthesize_answer loaded_system failing_backend ''what?'' [example_document] =
     Inr (fallback_answer ''what?'' [example_document])"
  using synthesize_answer_never_raises[of loaded_system failing_backend "''what?''"
      "[example_document]" "BackendError ''timeout''"]
  by (simp add: llm_answer_def failing_backend_def loaded_system_def example_system_def
      rag_init_def)

end
